theory Spec2Isabelle
  imports Main "HOL-Library.Sublist"
begin

section \<open>Admin rate limiter\<close>

text \<open>
  The limiter of the source is a module-level \<^verbatim>\<open>Map<string, {count, resetTime}>\<close>.
  It is modelled by explicit state passing: every call takes the map and the value that
  \<^verbatim>\<open>Date.now()\<close> returns for this call, and gives back the decision with the map after
  the call. The records of the source are mutable objects shared with the map, so a write
  to \<^verbatim>\<open>current\<close> is a write to the stored record whenever the key was already present;
  the model writes that aliasing out.
\<close>

record window_record =
  count :: int
  resetTime :: int

type_synonym limiter = "string \<rightharpoonup> window_record"

definition ADMIN_RATE_LIMIT :: int where
  "ADMIN_RATE_LIMIT = 100"

definition ADMIN_WINDOW_MS :: int where
  "ADMIN_WINDOW_MS = 60000"

definition checkAdminRateLimit :: "int \<Rightarrow> string \<Rightarrow> limiter \<Rightarrow> bool \<times> limiter" where
  "checkAdminRateLimit now operation adminOpLimiter =
     (let key = operation;
          stored = adminOpLimiter key;
          current0 = (case stored of
                        Some r \<Rightarrow> r
                      | None \<Rightarrow> \<lparr>count = 0, resetTime = now + ADMIN_WINDOW_MS\<rparr>);
          current = (if now > resetTime current0
                     then current0\<lparr>count := 0, resetTime := now + ADMIN_WINDOW_MS\<rparr>
                     else current0);
          shared = (case stored of
                      Some _ \<Rightarrow> adminOpLimiter(key \<mapsto> current)
                    | None \<Rightarrow> adminOpLimiter)
      in if count current \<ge> ADMIN_RATE_LIMIT then (False, shared)
         else (True, shared(key \<mapsto> current\<lparr>count := count current + 1\<rparr>)))"

text \<open>A run of calls for one operation name, one clock reading per call.\<close>

fun callsAt :: "string \<Rightarrow> int list \<Rightarrow> limiter \<Rightarrow> bool list \<times> limiter" where
  "callsAt operation [] lim = ([], lim)"
| "callsAt operation (now # nows) lim =
     (let (ok, lim') = checkAdminRateLimit now operation lim;
          (oks, lim'') = callsAt operation nows lim'
      in (ok # oks, lim''))"

section \<open>JavaScript strings and values\<close>

text \<open>
  Strings are byte strings; the case conversions act on the ASCII letters and leave
  every other byte alone, which is what \<^verbatim>\<open>toLowerCase\<close>, \<^verbatim>\<open>toUpperCase\<close> and the
  \<^verbatim>\<open>/i\<close> flag do on ASCII text.
\<close>

definition isUpperChar :: "char \<Rightarrow> bool" where
  "isUpperChar c = (65 \<le> (of_char c :: nat) \<and> (of_char c :: nat) \<le> 90)"

definition isLowerChar :: "char \<Rightarrow> bool" where
  "isLowerChar c = (97 \<le> (of_char c :: nat) \<and> (of_char c :: nat) \<le> 122)"

definition toLowerChar :: "char \<Rightarrow> char" where
  "toLowerChar c =
     (if isUpperChar c
      then (case c of Char b0 b1 b2 b3 b4 b5 b6 b7 \<Rightarrow> Char b0 b1 b2 b3 b4 True b6 b7)
      else c)"

definition toUpperChar :: "char \<Rightarrow> char" where
  "toUpperChar c =
     (if isLowerChar c
      then (case c of Char b0 b1 b2 b3 b4 b5 b6 b7 \<Rightarrow> Char b0 b1 b2 b3 b4 False b6 b7)
      else c)"

definition toLowerCase :: "string \<Rightarrow> string" where
  "toLowerCase s = map toLowerChar s"

definition toUpperCase :: "string \<Rightarrow> string" where
  "toUpperCase s = map toUpperChar s"

definition includesStr :: "string \<Rightarrow> string \<Rightarrow> bool" where
  "includesStr s t = sublist t s"

definition startsWith :: "string \<Rightarrow> string \<Rightarrow> bool" where
  "startsWith s t = prefix t s"

definition digitChar :: "nat \<Rightarrow> char" where
  "digitChar d = ''0123456789'' ! d"

text \<open>The decimal numeral of a natural number: \<^verbatim>\<open>String(n)\<close> for an array index or a count.\<close>

function showNat :: "nat \<Rightarrow> string" where
  "showNat n = (if n < 10 then [digitChar n]
                else showNat (n div 10) @ [digitChar (n mod 10)])"
  by pat_completeness auto
termination
  by (relation "measure id") auto

declare showNat.simps [simp del]

text \<open>
  The values the utilities receive. Numbers are the integral ones. An object is the list
  of its own enumerable string-keyed properties in the order of \<^verbatim>\<open>Object.entries\<close>.
  \<open>VObjectId s ps\<close> is an instance of the driver's \<^verbatim>\<open>ObjectId\<close> class built from the
  string \<open>s\<close>; \<open>ps\<close> are the own enumerable properties the driver gives the instance
  (which ones is the driver's business, so they stay a parameter of the model).
\<close>

datatype jsval =
    VUndefined
  | VNull
  | VBool bool
  | VNum int
  | VStr string
  | VArr "jsval list"
  | VObj "(string \<times> jsval) list"
  | VObjectId string "(string \<times> jsval) list"

text \<open>\<^verbatim>\<open>!v\<close> is false exactly on the truthy values.\<close>

fun truthy :: "jsval \<Rightarrow> bool" where
  "truthy VUndefined = False"
| "truthy VNull = False"
| "truthy (VBool b) = b"
| "truthy (VNum n) = (n \<noteq> 0)"
| "truthy (VStr s) = (s \<noteq> [])"
| "truthy (VArr xs) = True"
| "truthy (VObj es) = True"
| "truthy (VObjectId s ps) = True"

text \<open>\<^verbatim>\<open>typeof v === 'object'\<close>, which holds of \<^verbatim>\<open>null\<close> and of arrays too.\<close>

fun typeofObject :: "jsval \<Rightarrow> bool" where
  "typeofObject VNull = True"
| "typeofObject (VArr xs) = True"
| "typeofObject (VObj es) = True"
| "typeofObject (VObjectId s ps) = True"
| "typeofObject v = False"

fun typeofString :: "jsval \<Rightarrow> bool" where
  "typeofString (VStr s) = True"
| "typeofString v = False"

fun isArray :: "jsval \<Rightarrow> bool" where
  "isArray (VArr xs) = True"
| "isArray v = False"

text \<open>
  \<^verbatim>\<open>Object.entries\<close>: the entries of an array are its elements under their indices
  written in decimal. The sources call it on non-null objects only.
\<close>

definition indexKeys :: "nat \<Rightarrow> string list" where
  "indexKeys n = map showNat [0..<n]"

fun entriesOf :: "jsval \<Rightarrow> (string \<times> jsval) list" where
  "entriesOf (VObj es) = es"
| "entriesOf (VArr xs) = zip (indexKeys (length xs)) xs"
| "entriesOf (VObjectId s ps) = ps"
| "entriesOf v = []"

lemma size_entry:
  "(k, v) \<in> set es \<Longrightarrow> size v < Suc (size_list (size_prod (\<lambda>x. 0) size) es)"
  by (induction es) auto

lemma size_elem: "v \<in> set xs \<Longrightarrow> size v < Suc (size_list size xs)"
  by (induction xs) auto

lemma size_entriesOf: "(k, x) \<in> set (entriesOf v) \<Longrightarrow> size x < size v"
  by (cases v) (auto dest: size_entry size_elem set_zip_rightD)

section \<open>Redaction of sensitive fields (sanitize.ts)\<close>

definition sensitiveFields :: "string list" where
  "sensitiveFields = [''connectionString'', ''password'', ''key'', ''secret'', ''token'']"

definition REDACTED :: jsval where
  "REDACTED = VStr ''[REDACTED]''"

text \<open>The test of the loop: \<^verbatim>\<open>sensitiveFields.some(field => key.toLowerCase().includes(field))\<close>.\<close>

definition isSensitive :: "string \<Rightarrow> bool" where
  "isSensitive key = list_ex (\<lambda>field. includesStr (toLowerCase key) field) sensitiveFields"

text \<open>
  \<^verbatim>\<open>JSON.parse(JSON.stringify(data))\<close>: a property holding \<^verbatim>\<open>undefined\<close> is dropped, an
  array element holding it becomes \<^verbatim>\<open>null\<close>, and an \<^verbatim>\<open>ObjectId\<close> is replaced by the string
  its \<^verbatim>\<open>toJSON\<close> gives (the parameter \<open>hex\<close>, applied to the string the instance was built
  from). The payload is a tree, so the serialisation does not fail.
\<close>

function jsonCopy :: "(string \<Rightarrow> string) \<Rightarrow> jsval \<Rightarrow> jsval" where
  "jsonCopy hex (VObj es) =
     VObj (map (\<lambda>(k, v). (k, jsonCopy hex v)) (filter (\<lambda>(k, v). v \<noteq> VUndefined) es))"
| "jsonCopy hex (VArr xs) =
     VArr (map (\<lambda>v. if v = VUndefined then VNull else jsonCopy hex v) xs)"
| "jsonCopy hex (VObjectId s ps) = VStr (hex s)"
| "jsonCopy hex VUndefined = VUndefined"
| "jsonCopy hex VNull = VNull"
| "jsonCopy hex (VBool b) = VBool b"
| "jsonCopy hex (VNum n) = VNum n"
| "jsonCopy hex (VStr s) = VStr s"
  by pat_completeness auto
termination
  by (relation "measure (\<lambda>(hex, v). size v)") (auto dest: size_entry size_elem)

text \<open>
  \<^verbatim>\<open>sanitizeObject\<close> mutates its argument in place and returns nothing; the model returns
  the argument as it is after the call. The loop runs over the entries read at its start.
\<close>

function sanitizeObject :: "jsval \<Rightarrow> jsval" where
  "sanitizeObject (VObj es) =
     VObj (map (\<lambda>(key, value).
                  (key, if isSensitive key then REDACTED
                        else if typeofObject value \<and> value \<noteq> VNull then sanitizeObject value
                        else value)) es)"
| "sanitizeObject (VArr xs) =
     VArr (map (\<lambda>(key, value).
                  if isSensitive key then REDACTED
                  else if typeofObject value \<and> value \<noteq> VNull then sanitizeObject value
                  else value) (entriesOf (VArr xs)))"
| "sanitizeObject (VObjectId s ps) =
     VObjectId s (map (\<lambda>(key, value).
                  (key, if isSensitive key then REDACTED
                        else if typeofObject value \<and> value \<noteq> VNull then sanitizeObject value
                        else value)) ps)"
| "sanitizeObject VUndefined = VUndefined"
| "sanitizeObject VNull = VNull"
| "sanitizeObject (VBool b) = VBool b"
| "sanitizeObject (VNum n) = VNum n"
| "sanitizeObject (VStr s) = VStr s"
  by pat_completeness auto
termination
  by (relation "measure size") (auto dest: size_entry size_elem set_zip_rightD)

definition sanitizeResponse :: "(string \<Rightarrow> string) \<Rightarrow> jsval \<Rightarrow> jsval" where
  "sanitizeResponse hex data =
     (if \<not> truthy data then data
      else if \<not> typeofObject data then data
      else sanitizeObject (jsonCopy hex data))"

text \<open>
  A value is fully redacted when every property whose name passes the test of the loop
  holds the marker, at every depth, inside arrays as well.
\<close>

function allRedacted :: "jsval \<Rightarrow> bool" where
  "allRedacted (VObj es) =
     list_all (\<lambda>(key, value). if isSensitive key then value = REDACTED else allRedacted value) es"
| "allRedacted (VArr xs) = list_all allRedacted xs"
| "allRedacted (VObjectId s ps) =
     list_all (\<lambda>(key, value). if isSensitive key then value = REDACTED else allRedacted value) ps"
| "allRedacted VUndefined = True"
| "allRedacted VNull = True"
| "allRedacted (VBool b) = True"
| "allRedacted (VNum n) = True"
| "allRedacted (VStr s) = True"
  by pat_completeness auto
termination
  by (relation "measure size") (auto dest: size_entry size_elem)

section \<open>Identifier coercion (query-preprocessor.ts)\<close>

text \<open>
  The five regular expressions of \<^verbatim>\<open>isObjectIdField\<close> are each a literal with an optional
  \<^verbatim>\<open>^\<close>, an optional \<^verbatim>\<open>$\<close> and an optional \<^verbatim>\<open>i\<close> flag. \<open>regexTest\<close> is
  \<^verbatim>\<open>RegExp.prototype.test\<close> for such an expression: the literal is looked for at every
  offset of the input, the anchors pin the offset to the start and the end of the input.
\<close>

record regex =
  anchorStart :: bool
  literal :: string
  anchorEnd :: bool
  ignoreCase :: bool

definition matchesAt :: "regex \<Rightarrow> string \<Rightarrow> nat \<Rightarrow> bool" where
  "matchesAt p s i =
     (let n = length (literal p);
          window = take n (drop i s)
      in (if anchorStart p then i = 0 else True)
       \<and> (if ignoreCase p then toLowerCase window = toLowerCase (literal p)
           else window = literal p)
       \<and> (if anchorEnd p then i + n = length s else True))"

definition regexTest :: "regex \<Rightarrow> string \<Rightarrow> bool" where
  "regexTest p s = list_ex (matchesAt p s) [0..<Suc (length s)]"

definition objectIdPatterns :: "regex list" where
  "objectIdPatterns =
     [\<lparr>anchorStart = True, literal = ''_id'', anchorEnd = True, ignoreCase = False\<rparr>,
      \<lparr>anchorStart = False, literal = ''Id'', anchorEnd = True, ignoreCase = False\<rparr>,
      \<lparr>anchorStart = True, literal = ''id'', anchorEnd = True, ignoreCase = True\<rparr>,
      \<lparr>anchorStart = False, literal = ''_id'', anchorEnd = True, ignoreCase = False\<rparr>,
      \<lparr>anchorStart = True, literal = ''ref'', anchorEnd = False, ignoreCase = True\<rparr>]"

definition isObjectIdField :: "string \<Rightarrow> bool" where
  "isObjectIdField fieldName = list_ex (\<lambda>pattern. regexTest pattern fieldName) objectIdPatterns"

text \<open>
  The five patterns in the words of the specification: exactly \<open>_id\<close>, ending in \<open>Id\<close>,
  the whole name \<open>id\<close> in any case, ending in \<open>_id\<close>, beginning with \<open>ref\<close> in any case.
\<close>

definition identifierLike :: "string \<Rightarrow> bool" where
  "identifierLike name =
     (name = ''_id'' \<or> suffix ''Id'' name \<or> toLowerCase name = ''id''
      \<or> suffix ''_id'' name \<or> prefix ''ref'' (toLowerCase name))"

text \<open>
  The driver's \<^verbatim>\<open>ObjectId\<close> class is not part of the repository. The model takes from it
  the validity predicate on strings (\<^verbatim>\<open>ObjectId.isValid\<close>) and the own enumerable
  properties of a fresh instance, and leaves both open.
\<close>

record driver =
  ObjectId_isValid :: "string \<Rightarrow> bool"
  ownProps :: "string \<Rightarrow> (string \<times> jsval) list"

definition newObjectId :: "driver \<Rightarrow> string \<Rightarrow> jsval" where
  "newObjectId d s = VObjectId s (ownProps d s)"

fun strOf :: "jsval \<Rightarrow> string" where
  "strOf (VStr s) = s"
| "strOf v = []"

fun elems :: "jsval \<Rightarrow> jsval list" where
  "elems (VArr xs) = xs"
| "elems v = []"

text \<open>\<^verbatim>\<open>typeof item === 'string' && ObjectId.isValid(item)\<close>\<close>

definition validIdString :: "driver \<Rightarrow> jsval \<Rightarrow> bool" where
  "validIdString d item = (typeofString item \<and> ObjectId_isValid d (strOf item))"

text \<open>
  The results are fresh plain objects: \<open>processed\<close> starts as \<^verbatim>\<open>{}\<close> and receives one
  property per entry of the argument, in the order of the entries (property names are
  taken to be ordinary ones, not \<^verbatim>\<open>__proto__\<close>).
\<close>

definition preprocessQueryValue :: "driver \<Rightarrow> jsval \<Rightarrow> string option \<Rightarrow> jsval" where
  "preprocessQueryValue d value fieldName =
     (if \<not> truthy value then value
      else if \<not> typeofObject value then value
      else
        let isObjectIdFieldName =
              (case fieldName of
                 None \<Rightarrow> False
               | Some f \<Rightarrow> if f = [] then False else isObjectIdField f)
        in VObj (map (\<lambda>(operator, operatorValue).
                   (operator,
                    if startsWith operator ''$'' then
                      if isArray operatorValue then
                        VArr (map (\<lambda>item. if isObjectIdFieldName \<and> validIdString d item
                                           then newObjectId d (strOf item)
                                           else item)
                                (elems operatorValue))
                      else if isObjectIdFieldName \<and> validIdString d operatorValue then
                        newObjectId d (strOf operatorValue)
                      else operatorValue
                    else operatorValue))
                 (entriesOf value)))"

lemma size_elems: "item \<in> set (elems v) \<Longrightarrow> size item < size v"
  by (cases v) (auto dest: size_elem)

function preprocessQuery :: "driver \<Rightarrow> jsval \<Rightarrow> jsval" where
  "preprocessQuery d query =
     (if \<not> truthy query then query
      else if \<not> typeofObject query then query
      else
        VObj (map (\<lambda>(key, value).
                (key,
                 if isObjectIdField key then
                   if validIdString d value then newObjectId d (strOf value)
                   else if typeofObject value \<and> value \<noteq> VNull then
                     preprocessQueryValue d value (Some key)
                   else value
                 else if typeofObject value \<and> value \<noteq> VNull \<and> \<not> isArray value then
                   preprocessQuery d value
                 else if isArray value then
                   VArr (map (\<lambda>item. if isObjectIdField key \<and> validIdString d item
                                      then newObjectId d (strOf item)
                                      else if typeofObject item then preprocessQuery d item
                                      else item)
                           (elems value))
                 else value))
              (entriesOf query)))"
  by pat_completeness auto
termination
proof (relation "measure (\<lambda>(d, query). size query)")
  show "wf (measure (\<lambda>(d, query). size query))" by simp
next
  fix d :: driver and query x key v
  assume "x \<in> set (entriesOf query)" and "(key, v) = x"
  then have "size v < size query"
    using size_entriesOf [of key v query] by simp
  then show "((d, v), (d, query)) \<in> measure (\<lambda>(d, query). size query)" by simp
next
  fix d :: driver and query x key v item
  assume "x \<in> set (entriesOf query)" and "(key, v) = x" and "item \<in> set (elems v)"
  then have "size v < size query" and "size item < size v"
    using size_entriesOf [of key v query] size_elems [of item v] by simp_all
  then show "((d, item), (d, query)) \<in> measure (\<lambda>(d, query). size query)" by simp
qed

declare preprocessQuery.simps [simp del]

text \<open>
  Modelled from the spec: the valid-encoding predicate of the identifier reference type,
  a string of 24 hexadecimal characters. The class belongs to the database driver; this
  instance of the parameters serves the concrete examples only.
\<close>

definition isHexDigit :: "char \<Rightarrow> bool" where
  "isHexDigit c = (c \<in> set ''0123456789abcdefABCDEF'')"

definition objectIdIsValid :: "string \<Rightarrow> bool" where
  "objectIdIsValid s = (length s = 24 \<and> list_all isHexDigit s)"

definition plainDriver :: driver where
  "plainDriver = \<lparr>ObjectId_isValid = objectIdIsValid, ownProps = (\<lambda>s. [])\<rparr>"

section \<open>Verbosity filters and operation guard (response-filter.ts)\<close>

text \<open>
  Modelled from the spec: the type \<^verbatim>\<open>VerbosityLevel\<close> is declared in a file of the
  repository that is not among the sources; the specification gives it as the enumeration
  minimal, standard, full.
\<close>

datatype VerbosityLevel = Minimal | Standard | Full

type_synonym jsobject = "(string \<times> jsval) list"

text \<open>Reading a property (\<^verbatim>\<open>stats.ns\<close>): a property the object lacks reads as \<^verbatim>\<open>undefined\<close>.\<close>

definition getProp :: "jsobject \<Rightarrow> string \<Rightarrow> jsval" where
  "getProp obj k = (case map_of obj k of Some v \<Rightarrow> v | None \<Rightarrow> VUndefined)"

definition filterCollectionStats :: "jsobject \<Rightarrow> VerbosityLevel \<Rightarrow> jsobject" where
  "filterCollectionStats stats verbosity =
     (if verbosity = Full then stats
      else
        let filtered =
              [(''ns'', getProp stats ''ns''),
               (''count'', getProp stats ''count''),
               (''size'', getProp stats ''size''),
               (''avgObjSize'', getProp stats ''avgObjSize''),
               (''storageSize'', getProp stats ''storageSize''),
               (''nindexes'', getProp stats ''nindexes''),
               (''totalIndexSize'', getProp stats ''totalIndexSize''),
               (''indexSizes'', getProp stats ''indexSizes'')]
        in if verbosity = Standard
           then filtered @
                  [(''capped'', getProp stats ''capped''),
                   (''max'', getProp stats ''max''),
                   (''freeStorageSize'', getProp stats ''freeStorageSize'')]
           else filtered)"

definition filterDatabaseStats :: "jsobject \<Rightarrow> VerbosityLevel \<Rightarrow> jsobject" where
  "filterDatabaseStats stats verbosity =
     (if verbosity = Full then stats
      else
        let filtered =
              [(''db'', getProp stats ''db''),
               (''collections'', getProp stats ''collections''),
               (''views'', getProp stats ''views''),
               (''objects'', getProp stats ''objects''),
               (''avgObjSize'', getProp stats ''avgObjSize''),
               (''dataSize'', getProp stats ''dataSize''),
               (''storageSize'', getProp stats ''storageSize''),
               (''indexes'', getProp stats ''indexes''),
               (''indexSize'', getProp stats ''indexSize''),
               (''totalSize'', getProp stats ''totalSize'')]
        in if verbosity = Standard
           then filtered @
                  [(''scaleFactor'', getProp stats ''scaleFactor''),
                   (''freeStorageSize'', getProp stats ''freeStorageSize'')]
           else filtered)"

definition filterProfilerEntry :: "jsobject \<Rightarrow> VerbosityLevel \<Rightarrow> jsobject" where
  "filterProfilerEntry entry verbosity =
     (if verbosity = Full then entry
      else
        let filtered =
              [(''op'', getProp entry ''op''),
               (''ns'', getProp entry ''ns''),
               (''millis'', getProp entry ''millis''),
               (''ts'', getProp entry ''ts'')]
        in if verbosity = Standard
           then filtered @
                  [(''planSummary'', getProp entry ''planSummary''),
                   (''docsExamined'', getProp entry ''docsExamined''),
                   (''keysExamined'', getProp entry ''keysExamined''),
                   (''nreturned'', getProp entry ''nreturned''),
                   (''user'', getProp entry ''user'')]
           else filtered)"

text \<open>
  The keys of an object: \<open>ownKeys\<close> are its property names (\<^verbatim>\<open>Object.keys\<close>);
  \<open>definedKeys\<close> are the names that carry a value, the ones a JSON serialisation of the
  object shows. The keys a filter retains are the property names of the payload that
  the result still has.
\<close>

definition ownKeys :: "jsobject \<Rightarrow> string set" where
  "ownKeys obj = set (map fst obj)"

definition definedKeys :: "jsobject \<Rightarrow> string set" where
  "definedKeys obj = set (map fst (filter (\<lambda>(k, v). v \<noteq> VUndefined) obj))"

definition retainedKeys :: "jsobject \<Rightarrow> jsobject \<Rightarrow> string set" where
  "retainedKeys payload result = ownKeys payload \<inter> ownKeys result"

text \<open>
  The warning sign of the messages is the character U+26A0, here its three bytes in
  UTF-8; \<open>newline\<close> is the line feed of the template literal.
\<close>

definition warningSign :: string where
  "warningSign = [CHR 0xE2, CHR 0x9A, CHR 0xA0]"

definition newline :: string where
  "newline = [CHR 0x0A]"

definition showInt :: "int \<Rightarrow> string" where
  "showInt i = (if i < 0 then ''-'' @ showNat (nat (- i)) else showNat (nat i))"

text \<open>
  Modelled from the spec: \<^verbatim>\<open>Number.prototype.toLocaleString\<close> belongs to the runtime and
  follows its locale; the specification shows the count 5000 as \<open>5,000\<close>, digits in
  groups of three separated by commas.
\<close>

function groupThousands :: "string \<Rightarrow> string" where
  "groupThousands ds =
     (if length ds \<le> 3 then ds
      else groupThousands (take (length ds - 3) ds) @ '','' @ drop (length ds - 3) ds)"
  by pat_completeness auto
termination
  by (relation "measure length") auto

declare groupThousands.simps [simp del]

definition toLocaleString :: "int \<Rightarrow> string" where
  "toLocaleString i =
     (if i < 0 then ''-'' @ groupThousands (showNat (nat (- i)))
      else groupThousands (showNat (nat i)))"

text \<open>The count is an integral number; the operation is the text put into the message.\<close>

definition getOperationWarning :: "int \<Rightarrow> string \<Rightarrow> string option" where
  "getOperationWarning count' operation =
     (if count' = 0 then None
      else if count' \<ge> 1000 then
        Some (warningSign @ warningSign @ '' LARGE OPERATION: Will '' @ operation @ '' ''
              @ toLocaleString count' @ '' documents'')
      else if count' \<ge> 100 then
        Some (warningSign @ '' Large operation: Will '' @ operation @ '' ''
              @ showInt count' @ '' documents'')
      else if count' > 10 then
        Some (''Will '' @ operation @ '' '' @ showInt count' @ '' documents'')
      else None)"

record FilterValidationResult =
  isValid :: bool
  isEmpty :: bool
  isMatchAll :: bool
  warning :: "string option"

text \<open>The filter is a record of properties, or absent (\<open>None\<close>).\<close>

definition validateFilter :: "jsobject option \<Rightarrow> FilterValidationResult" where
  "validateFilter filter' =
     (let isEmpty' = (case filter' of None \<Rightarrow> True | Some es \<Rightarrow> length (map fst es) = 0);
          isMatchAll' = isEmpty';
          warning' = (if isEmpty'
                      then Some ''Empty filter will match ALL documents in the collection''
                      else None)
      in \<lparr>isValid = True, isEmpty = isEmpty', isMatchAll = isMatchAll', warning = warning'\<rparr>)"

record BlockDecision =
  blocked :: bool
  reason :: "string option"

text \<open>
  \<open>allowEmptyFilter\<close> has the default \<^verbatim>\<open>false\<close> and \<open>operation\<close> is optional: \<open>None\<close> is
  the argument left out. An empty operation name is falsy and replaced like a missing one.
\<close>

definition shouldBlockFilter ::
  "jsobject option \<Rightarrow> bool option \<Rightarrow> string option \<Rightarrow> BlockDecision" where
  "shouldBlockFilter filter' allowEmptyFilter operation =
     (let allow = (case allowEmptyFilter of None \<Rightarrow> False | Some b \<Rightarrow> b);
          validation = validateFilter filter'
      in if isEmpty validation \<and> \<not> allow then
           let operationName = (case operation of
                                  None \<Rightarrow> ''operation''
                                | Some n \<Rightarrow> if n = [] then ''operation'' else n)
           in \<lparr>blocked = True,
               reason = Some (warningSign @ '' Operation blocked for safety'' @ newline
                 @ newline
                 @ ''Filter: {} (empty - matches ALL documents)'' @ newline
                 @ newline
                 @ ''To preview impact: Add {dryRun: true}'' @ newline
                 @ ''To proceed anyway: Add {allowEmptyFilter: true}'' @ newline
                 @ ''Recommended: Use preview''
                 @ toUpperCase (take 1 operationName) @ drop 1 operationName
                 @ ''() first'')\<rparr>
         else \<lparr>blocked = False, reason = None\<rparr>)"

section \<open>Properties of the redaction\<close>

lemma digitChar_digit: "d < 10 \<Longrightarrow> digitChar d \<in> set ''0123456789''"
  unfolding digitChar_def by (rule nth_mem) simp

lemma showNat_digits: "set (showNat n) \<subseteq> set ''0123456789''"
proof (induction n rule: showNat.induct)
  case (1 n)
  show ?case
  proof (cases "n < 10")
    case True
    then show ?thesis
      using digitChar_digit [of n] by (subst showNat.simps) simp
  next
    case False
    have "digitChar (n mod 10) \<in> set ''0123456789''"
      by (rule digitChar_digit) simp
    with False 1 show ?thesis
      by (subst showNat.simps) simp
  qed
qed

lemma toLowerChar_digit: "c \<in> set ''0123456789'' \<Longrightarrow> toLowerChar c = c"
  by (auto simp: toLowerChar_def isUpperChar_def)

lemma toLowerCase_showNat: "toLowerCase (showNat n) = showNat n"
  unfolding toLowerCase_def
  using showNat_digits [of n] by (intro map_idI toLowerChar_digit) blast

lemma includes_first: "includesStr s (c # t) \<Longrightarrow> c \<in> set s"
  unfolding includesStr_def using set_mono_sublist [of "c # t" s] by auto

lemma index_not_sensitive: "\<not> isSensitive (showNat n)"
proof
  assume "isSensitive (showNat n)"
  then obtain c where "c \<in> set ''cpkst''" and "c \<in> set (showNat n)"
    unfolding isSensitive_def sensitiveFields_def toLowerCase_showNat
    by (auto dest: includes_first)
  with showNat_digits [of n] show False by auto
qed

lemma indexKeys_not_sensitive: "k \<in> set (indexKeys n) \<Longrightarrow> \<not> isSensitive k"
  by (auto simp: indexKeys_def index_not_sensitive)

lemma map_zip_snd:
  "length ks = length xs \<Longrightarrow> (\<And>k. k \<in> set ks \<Longrightarrow> \<not> P k) \<Longrightarrow>
   map (\<lambda>(k, v). if P k then a else f v) (zip ks xs) = map f xs"
  by (induction ks xs rule: list_induct2) auto

lemma sanitizeObject_array:
  "sanitizeObject (VArr xs) =
     VArr (map (\<lambda>value. if typeofObject value \<and> value \<noteq> VNull then sanitizeObject value
                        else value) xs)"
proof -
  have "map (\<lambda>(key, value).
               if isSensitive key then REDACTED
               else (if typeofObject value \<and> value \<noteq> VNull then sanitizeObject value
                     else value))
          (zip (indexKeys (length xs)) xs) =
        map (\<lambda>value. if typeofObject value \<and> value \<noteq> VNull then sanitizeObject value
                        else value) xs"
    by (rule map_zip_snd) (auto simp: indexKeys_def index_not_sensitive)
  then show ?thesis by simp
qed

lemma sanitizeObject_primitive:
  "\<not> (typeofObject v \<and> v \<noteq> VNull) \<Longrightarrow> sanitizeObject v = v"
  by (cases v) simp_all

lemma sanitizeObject_array_map: "sanitizeObject (VArr xs) = VArr (map sanitizeObject xs)"
  unfolding sanitizeObject_array
  by (simp add: sanitizeObject_primitive cong: map_cong)

lemma sanitizeObject_object_map:
  "sanitizeObject (VObj es) =
     VObj (map (\<lambda>(key, value). (key, if isSensitive key then REDACTED
                                       else sanitizeObject value)) es)"
  by (auto simp: sanitizeObject_primitive)

lemma sanitizeResponse_object:
  "sanitizeResponse hex (VObj es) = sanitizeObject (jsonCopy hex (VObj es))"
  by (simp add: sanitizeResponse_def)

lemma sanitizeResponse_array:
  "sanitizeResponse hex (VArr xs) = sanitizeObject (jsonCopy hex (VArr xs))"
  by (simp add: sanitizeResponse_def)

lemma sanitizeResponse_array_of_objects:
  "sanitizeResponse hex (VArr (map VObj oss)) =
     VArr (map (\<lambda>es. sanitizeResponse hex (VObj es)) oss)"
proof -
  have "jsonCopy hex (VArr (map VObj oss)) = VArr (map (\<lambda>es. jsonCopy hex (VObj es)) oss)"
    by (simp add: comp_def)
  then show ?thesis
    unfolding sanitizeResponse_array sanitizeResponse_object
    by (simp only: sanitizeObject_array_map map_map comp_def)
qed

lemma sanitizeResponse_redacts_entry:
  assumes "(k, v) \<in> set es" and "v \<noteq> VUndefined" and "isSensitive k"
  shows "(k, REDACTED) \<in> set (entriesOf (sanitizeResponse hex (VObj es)))"
proof -
  let ?kept = "filter (\<lambda>(k, v). v \<noteq> VUndefined) es"
  have "(k, v) \<in> set ?kept"
    using assms(1,2) by simp
  then have "(k, jsonCopy hex v) \<in> set (map (\<lambda>(k, v). (k, jsonCopy hex v)) ?kept)"
    by force
  then have "(k, REDACTED) \<in>
      set (map (\<lambda>(key, value). (key, if isSensitive key then REDACTED
                                        else sanitizeObject value))
             (map (\<lambda>(k, v). (k, jsonCopy hex v)) ?kept))"
    using assms(3) by force
  then show ?thesis
    unfolding sanitizeResponse_object by (simp only: jsonCopy.simps sanitizeObject_object_map entriesOf.simps)
qed

lemma toLowerChar_not_upper: "\<not> isUpperChar (toLowerChar c)"
  by (cases c) (auto simp: toLowerChar_def isUpperChar_def)

lemma toLowerCase_no_upper: "c \<in> set (toLowerCase s) \<Longrightarrow> \<not> isUpperChar c"
  by (auto simp: toLowerCase_def toLowerChar_not_upper)

lemma connectionString_never: "\<not> includesStr (toLowerCase key) ''connectionString''"
proof
  assume "includesStr (toLowerCase key) ''connectionString''"
  then have "set ''connectionString'' \<subseteq> set (toLowerCase key)"
    unfolding includesStr_def by (rule set_mono_sublist)
  then have "CHR ''S'' \<in> set (toLowerCase key)" by simp
  then have "\<not> isUpperChar CHR ''S''" by (rule toLowerCase_no_upper)
  then show False by (simp add: isUpperChar_def)
qed

lemma isSensitive_four:
  "isSensitive key =
     list_ex (\<lambda>field. includesStr (toLowerCase key) field) [''password'', ''key'', ''secret'', ''token'']"
  by (simp add: isSensitive_def sensitiveFields_def connectionString_never)

lemma allRedacted_primitive: "\<not> (typeofObject v \<and> v \<noteq> VNull) \<Longrightarrow> allRedacted v"
  by (cases v) simp_all

lemma elem_is_entry:
  assumes "x \<in> set xs"
  shows "\<exists>k. (k, x) \<in> set (entriesOf (VArr xs)) \<and> \<not> isSensitive k"
proof -
  from assms obtain i where i: "i < length xs" and x: "xs ! i = x"
    by (auto simp: in_set_conv_nth)
  then have "(indexKeys (length xs) ! i, x) \<in> set (zip (indexKeys (length xs)) xs)"
    unfolding in_set_zip by (intro exI [of _ i]) (simp add: indexKeys_def)
  moreover have "\<not> isSensitive (indexKeys (length xs) ! i)"
    using i by (simp add: indexKeys_def index_not_sensitive)
  ultimately show ?thesis by auto
qed

lemma allRedacted_sanitizeObject: "allRedacted (sanitizeObject v)"
proof (induction v rule: sanitizeObject.induct)
  case (1 es)
  then show ?case
    by (auto simp: list_all_iff allRedacted_primitive)
next
  case (2 xs)
  have "allRedacted (sanitizeObject x)" if "x \<in> set xs" for x
  proof (cases "typeofObject x \<and> x \<noteq> VNull")
    case True
    from elem_is_entry [OF that] obtain k
      where "(k, x) \<in> set (entriesOf (VArr xs))" and "\<not> isSensitive k" by blast
    with True 2 show ?thesis by blast
  next
    case False
    then show ?thesis by (simp add: sanitizeObject_primitive allRedacted_primitive)
  qed
  then show ?case
    by (simp only: sanitizeObject_array_map) (simp add: list_all_iff)
next
  case (3 s ps)
  then show ?case by (auto simp: list_all_iff allRedacted_primitive)
qed simp_all

text \<open>
  Whatever \<open>sanitizeResponse\<close> returns is fully redacted with respect to the test of
  the source.
\<close>

theorem sanitizeResponse_redacts_everywhere: "allRedacted (sanitizeResponse hex data)"
proof (cases "truthy data \<and> typeofObject data")
  case True
  then show ?thesis
    by (simp add: sanitizeResponse_def allRedacted_sanitizeObject)
next
  case False
  then have "\<not> (typeofObject data \<and> data \<noteq> VNull)"
    by (cases data) auto
  then have "allRedacted data" by (rule allRedacted_primitive)
  with False show ?thesis
    by (auto simp: sanitizeResponse_def)
qed

text \<open>
  C1 (the key \<open>connectionString\<close>). The lowercase form of the key contains the term
  \<open>connectionstring\<close>, yet the list of the source spells the term \<open>connectionString\<close>,
  which no lowercased key contains: the test of the loop is the test for the other four
  terms alone, and the value of the key \<open>connectionString\<close> comes back as it went in.
\<close>

theorem sanitizeResponse_connectionString_kept:
  "includesStr (toLowerCase ''connectionString'') ''connectionstring''
   \<and> isSensitive key =
       list_ex (\<lambda>field. includesStr (toLowerCase key) field)
         [''password'', ''key'', ''secret'', ''token'']
   \<and> sanitizeResponse hex (VObj [(''connectionString'', VStr ''mongodb://admin:pw@db:27017'')])
       = VObj [(''connectionString'', VStr ''mongodb://admin:pw@db:27017'')]"
proof -
  have "includesStr (toLowerCase ''connectionString'') ''connectionstring''"
    by (simp add: includesStr_def toLowerCase_def toLowerChar_def isUpperChar_def)
  moreover have "\<not> isSensitive ''connectionString''"
    by (simp add: isSensitive_four includesStr_def toLowerCase_def toLowerChar_def
          isUpperChar_def sublist_code)
  then have "sanitizeResponse hex
               (VObj [(''connectionString'', VStr ''mongodb://admin:pw@db:27017'')])
             = VObj [(''connectionString'', VStr ''mongodb://admin:pw@db:27017'')]"
    by (simp add: sanitizeResponse_def)
  ultimately show ?thesis
    using isSensitive_four [of key] by blast
qed

text \<open>
  C10. The traversal enters the objects that an array holds. An array of objects is
  sanitised element by element, each element as \<open>sanitizeResponse\<close> sanitises that object
  alone, whether the array is the payload or sits under a key of it, which is also how an
  object directly under a key is treated. So a key of an element that passes the
  sensitivity test of the code is redacted.
\<close>

theorem sanitizeResponse_descends_into_arrays:
  assumes "i < length oss" and "(k, v) \<in> set (oss ! i)" and "v \<noteq> VUndefined"
    and "isSensitive k" and "\<not> isSensitive outer"
  shows "sanitizeResponse hex (VArr (map VObj oss)) =
           VArr (map (\<lambda>es. sanitizeResponse hex (VObj es)) oss)
       \<and> sanitizeResponse hex (VObj [(outer, VArr (map VObj oss))]) =
           VObj [(outer, VArr (map (\<lambda>es. sanitizeResponse hex (VObj es)) oss))]
       \<and> sanitizeResponse hex (VObj [(outer, VObj (oss ! i))]) =
           VObj [(outer, sanitizeResponse hex (VObj (oss ! i)))]
       \<and> (k, REDACTED) \<in> set (entriesOf (sanitizeResponse hex (VObj (oss ! i))))"
proof -
  have arr: "sanitizeResponse hex (VArr (map VObj oss)) =
               VArr (map (\<lambda>es. sanitizeResponse hex (VObj es)) oss)"
    by (rule sanitizeResponse_array_of_objects)
  have "sanitizeResponse hex (VObj [(outer, VArr (map VObj oss))]) =
          VObj [(outer, sanitizeResponse hex (VArr (map VObj oss)))]"
    using assms(5) by (simp add: sanitizeResponse_def)
  then have nested: "sanitizeResponse hex (VObj [(outer, VArr (map VObj oss))]) =
          VObj [(outer, VArr (map (\<lambda>es. sanitizeResponse hex (VObj es)) oss))]"
    by (simp only: arr)
  have direct: "sanitizeResponse hex (VObj [(outer, VObj (oss ! i))]) =
          VObj [(outer, sanitizeResponse hex (VObj (oss ! i)))]"
    using assms(5) by (simp add: sanitizeResponse_def)
  have "(k, REDACTED) \<in> set (entriesOf (sanitizeResponse hex (VObj (oss ! i))))"
    by (rule sanitizeResponse_redacts_entry [OF assms(2,3,4)])
  with arr nested direct show ?thesis by blast
qed

theorem sanitizeResponse_descends_into_arrays_witness:
  "sanitizeResponse (\<lambda>s. s)
     (VObj [(''users'', VArr [VObj [(''name'', VStr ''ann''), (''apiToken'', VStr ''t0'')]])]) =
   VObj [(''users'', VArr [VObj [(''name'', VStr ''ann''), (''apiToken'', VStr ''[REDACTED]'')]])]"
proof -
  have sens: "isSensitive ''apiToken''"
    by (simp add: isSensitive_def sensitiveFields_def includesStr_def
          toLowerCase_def toLowerChar_def isUpperChar_def sublist_code)
  have outer: "\<not> isSensitive ''users''"
    by (simp add: isSensitive_def sensitiveFields_def includesStr_def
          toLowerCase_def toLowerChar_def isUpperChar_def sublist_code)
  have name: "\<not> isSensitive ''name''"
    by (simp add: isSensitive_def sensitiveFields_def includesStr_def
          toLowerCase_def toLowerChar_def isUpperChar_def sublist_code)
  have elem: "sanitizeResponse (\<lambda>s. s) (VObj [(''name'', VStr ''ann''), (''apiToken'', VStr ''t0'')])
        = VObj [(''name'', VStr ''ann''), (''apiToken'', VStr ''[REDACTED]'')]"
    using sens name by (simp add: sanitizeResponse_def REDACTED_def)
  from sanitizeResponse_descends_into_arrays
         [of 0 "[[(''name'', VStr ''ann''), (''apiToken'', VStr ''t0'')]]"
             "''apiToken''" "VStr ''t0''" "''users''" "\<lambda>s. s"] sens outer
  have "sanitizeResponse (\<lambda>s. s)
          (VObj [(''users'', VArr (map VObj [[(''name'', VStr ''ann''), (''apiToken'', VStr ''t0'')]]))]) =
        VObj [(''users'', VArr (map (\<lambda>es. sanitizeResponse (\<lambda>s. s) (VObj es))
                 [[(''name'', VStr ''ann''), (''apiToken'', VStr ''t0'')]]))]"
    by simp
  then show ?thesis
    by (simp only: list.map elem)
qed

section \<open>Properties of the identifier coercion\<close>

lemma regexTest_iff: "regexTest p s \<longleftrightarrow> (\<exists>i\<le>length s. matchesAt p s i)"
proof -
  have "set [0..<Suc (length s)] = {i. i \<le> length s}" by auto
  then show ?thesis unfolding regexTest_def list_ex_iff by blast
qed

lemma test_exact:
  "regexTest \<lparr>anchorStart = True, literal = l, anchorEnd = True, ignoreCase = False\<rparr> s
     \<longleftrightarrow> s = l"
  by (auto simp: regexTest_iff matchesAt_def Let_def)

lemma test_exact_ci:
  "regexTest \<lparr>anchorStart = True, literal = l, anchorEnd = True, ignoreCase = True\<rparr> s
     \<longleftrightarrow> toLowerCase s = toLowerCase l"
proof
  assume "regexTest \<lparr>anchorStart = True, literal = l, anchorEnd = True, ignoreCase = True\<rparr> s"
  then show "toLowerCase s = toLowerCase l"
    by (auto simp: regexTest_iff matchesAt_def Let_def)
next
  assume eq: "toLowerCase s = toLowerCase l"
  then have "length s = length l"
    unfolding toLowerCase_def by (rule map_eq_imp_length_eq)
  with eq show "regexTest \<lparr>anchorStart = True, literal = l, anchorEnd = True, ignoreCase = True\<rparr> s"
    by (auto simp: regexTest_iff matchesAt_def Let_def)
qed

lemma test_suffix:
  "regexTest \<lparr>anchorStart = False, literal = l, anchorEnd = True, ignoreCase = False\<rparr> s
     \<longleftrightarrow> suffix l s"
proof
  assume "regexTest \<lparr>anchorStart = False, literal = l, anchorEnd = True, ignoreCase = False\<rparr> s"
  then obtain i where "take (length l) (drop i s) = l" and "i + length l = length s"
    by (auto simp: regexTest_iff matchesAt_def Let_def)
  then have "drop i s = l" by simp
  then show "suffix l s" by (metis suffix_drop)
next
  assume "suffix l s"
  then obtain ys where s: "s = ys @ l" by (auto simp: suffix_def)
  then have "matchesAt \<lparr>anchorStart = False, literal = l, anchorEnd = True, ignoreCase = False\<rparr>
               s (length ys)"
    by (simp add: matchesAt_def)
  with s show "regexTest \<lparr>anchorStart = False, literal = l, anchorEnd = True, ignoreCase = False\<rparr> s"
    unfolding regexTest_iff by (intro exI [of _ "length ys"]) simp
qed

lemma test_prefix_ci:
  "regexTest \<lparr>anchorStart = True, literal = l, anchorEnd = False, ignoreCase = True\<rparr> s
     \<longleftrightarrow> prefix (toLowerCase l) (toLowerCase s)"
proof -
  have "regexTest \<lparr>anchorStart = True, literal = l, anchorEnd = False, ignoreCase = True\<rparr> s
      \<longleftrightarrow> toLowerCase (take (length l) s) = toLowerCase l"
    by (auto simp: regexTest_iff matchesAt_def Let_def)
  also have "toLowerCase (take (length l) s) = take (length (toLowerCase l)) (toLowerCase s)"
    by (simp add: toLowerCase_def take_map)
  also have "(take (length (toLowerCase l)) (toLowerCase s) = toLowerCase l)
      \<longleftrightarrow> prefix (toLowerCase l) (toLowerCase s)"
    by (metis append_eq_conv_conj prefix_def take_is_prefix)
  finally show ?thesis .
qed

lemma isObjectIdField_iff: "isObjectIdField name \<longleftrightarrow> identifierLike name"
  unfolding isObjectIdField_def objectIdPatterns_def identifierLike_def
  by (simp add: test_exact test_exact_ci test_suffix test_prefix_ci
        toLowerCase_def toLowerChar_def isUpperChar_def)

lemma preprocessQuery_object:
  "preprocessQuery d (VObj es) =
     VObj (map (\<lambda>(key, value).
                (key,
                 if isObjectIdField key then
                   if validIdString d value then newObjectId d (strOf value)
                   else if typeofObject value \<and> value \<noteq> VNull then
                     preprocessQueryValue d value (Some key)
                   else value
                 else if typeofObject value \<and> value \<noteq> VNull \<and> \<not> isArray value then
                   preprocessQuery d value
                 else if isArray value then
                   VArr (map (\<lambda>item. if isObjectIdField key \<and> validIdString d item
                                      then newObjectId d (strOf item)
                                      else if typeofObject item then preprocessQuery d item
                                      else item)
                           (elems value))
                 else value)) es)"
  by (subst preprocessQuery.simps) simp

lemma index_no_sigil: "\<not> startsWith (showNat n) ''$''"
proof
  assume "startsWith (showNat n) ''$''"
  then have "CHR ''$'' \<in> set (showNat n)"
    unfolding startsWith_def by (auto simp: prefix_def)
  with showNat_digits [of n] show False by auto
qed

lemma preprocessQueryValue_array:
  "preprocessQueryValue d (VArr xs) fieldName = VObj (zip (indexKeys (length xs)) xs)"
proof -
  have "map (\<lambda>(operator, operatorValue).
               (operator, if startsWith operator ''$'' then f operatorValue else operatorValue))
          (zip (indexKeys (length xs)) xs) = zip (indexKeys (length xs)) xs"
    for f :: "jsval \<Rightarrow> jsval"
    by (rule map_idI) (auto simp: indexKeys_def index_no_sigil dest!: set_zip_leftD)
  then show ?thesis
    by (simp add: preprocessQueryValue_def Let_def)
qed

lemma preprocessQueryValue_not_ObjectId:
  "preprocessQueryValue d (VObjectId s ps) fieldName \<noteq> VObjectId s' ps'"
  by (simp add: preprocessQueryValue_def Let_def)

lemma sample_id_valid: "objectIdIsValid ''507f1f77bcf86cd799439011''"
  by (simp add: objectIdIsValid_def isHexDigit_def)

text \<open>
  C5. The name test of the source accepts exactly the names of the five patterns. With
  the string \<open>507f1f77bcf86cd799439011\<close> accepted by the driver, the field \<open>_id\<close> holding
  it is mapped to a constructed ObjectId, and the field \<open>identity\<close> holding it keeps the
  string.
\<close>

theorem isObjectIdField_five_patterns:
  assumes "ObjectId_isValid d ''507f1f77bcf86cd799439011''"
  shows "(isObjectIdField name \<longleftrightarrow> identifierLike name)
       \<and> preprocessQuery d (VObj [(''_id'', VStr ''507f1f77bcf86cd799439011'')]) =
           VObj [(''_id'', newObjectId d ''507f1f77bcf86cd799439011'')]
       \<and> preprocessQuery d (VObj [(''identity'', VStr ''507f1f77bcf86cd799439011'')]) =
           VObj [(''identity'', VStr ''507f1f77bcf86cd799439011'')]"
proof -
  have id: "isObjectIdField ''_id''"
    by (simp add: isObjectIdField_iff identifierLike_def)
  have identity: "\<not> isObjectIdField ''identity''"
    by (simp add: isObjectIdField_iff identifierLike_def suffix_to_prefix
          toLowerCase_def toLowerChar_def isUpperChar_def)
  have "preprocessQuery d (VObj [(''_id'', VStr ''507f1f77bcf86cd799439011'')]) =
          VObj [(''_id'', newObjectId d ''507f1f77bcf86cd799439011'')]"
    using assms id by (simp add: preprocessQuery_object validIdString_def)
  moreover have "preprocessQuery d (VObj [(''identity'', VStr ''507f1f77bcf86cd799439011'')]) =
          VObj [(''identity'', VStr ''507f1f77bcf86cd799439011'')]"
    using identity by (simp add: preprocessQuery_object)
  ultimately show ?thesis
    using isObjectIdField_iff [of name] by blast
qed

theorem isObjectIdField_five_patterns_witness:
  "isObjectIdField ''userId'' = identifierLike ''userId''
   \<and> preprocessQuery plainDriver (VObj [(''_id'', VStr ''507f1f77bcf86cd799439011'')]) =
       VObj [(''_id'', VObjectId ''507f1f77bcf86cd799439011'' [])]
   \<and> preprocessQuery plainDriver (VObj [(''identity'', VStr ''507f1f77bcf86cd799439011'')]) =
       VObj [(''identity'', VStr ''507f1f77bcf86cd799439011'')]"
proof -
  have valid: "ObjectId_isValid plainDriver ''507f1f77bcf86cd799439011''"
    by (simp add: plainDriver_def sample_id_valid)
  from isObjectIdField_five_patterns [OF valid, of "''userId''"] show ?thesis
    by (simp add: newObjectId_def plainDriver_def)
qed

text \<open>
  C2 (an array under an identifier-like field). \<open>preprocessQuery\<close> tests the name first
  and hands every non-null object under an identifier-like name, arrays among them, to
  \<open>preprocessQueryValue\<close>; its own array branch, the only place that coerces the elements
  of a bare array, is reached for the other names alone. \<open>preprocessQueryValue\<close> copies
  the entries of the array into a fresh plain object: the value comes back as an object
  keyed by the indices, and its elements, valid identifier strings included, are the
  ones that went in.
\<close>

theorem preprocessQuery_array_under_id_field:
  assumes "isObjectIdField key"
  shows "preprocessQuery d (VObj [(key, VArr xs)]) =
           VObj [(key, VObj (zip (indexKeys (length xs)) xs))]"
  using assms
  by (simp add: preprocessQuery_object validIdString_def preprocessQueryValue_array)

theorem preprocessQuery_array_under_id_field_witness:
  "isObjectIdField ''_id''
   \<and> ObjectId_isValid plainDriver ''507f1f77bcf86cd799439011''
   \<and> preprocessQuery plainDriver (VObj [(''_id'', VArr [VStr ''507f1f77bcf86cd799439011''])]) =
       VObj [(''_id'', VObj [(''0'', VStr ''507f1f77bcf86cd799439011'')])]"
proof -
  have id: "isObjectIdField ''_id''"
    by (simp add: isObjectIdField_iff identifierLike_def)
  have valid: "ObjectId_isValid plainDriver ''507f1f77bcf86cd799439011''"
    by (simp add: plainDriver_def sample_id_valid)
  from preprocessQuery_array_under_id_field
         [OF id, of plainDriver "[VStr ''507f1f77bcf86cd799439011'']"] id valid
  show ?thesis
    by (simp add: indexKeys_def showNat.simps digitChar_def)
qed

text \<open>
  C3 (a second pass). The first pass puts an ObjectId under an identifier-like field
  that held a valid string. The second pass finds a non-null object there and hands it to
  \<open>preprocessQueryValue\<close>, which answers with a fresh plain object built from the own
  properties of the instance: the ObjectId is gone, and the two results differ.
\<close>

theorem preprocessQuery_second_pass:
  assumes "isObjectIdField key" and "ObjectId_isValid d s"
  shows "preprocessQuery d (VObj [(key, VStr s)]) = VObj [(key, newObjectId d s)]
       \<and> preprocessQuery d (preprocessQuery d (VObj [(key, VStr s)])) =
           VObj [(key, preprocessQueryValue d (newObjectId d s) (Some key))]
       \<and> preprocessQuery d (preprocessQuery d (VObj [(key, VStr s)])) \<noteq>
           preprocessQuery d (VObj [(key, VStr s)])"
  using assms
  by (simp add: preprocessQuery_object validIdString_def newObjectId_def
        preprocessQueryValue_not_ObjectId)

theorem preprocessQuery_second_pass_witness:
  "preprocessQuery plainDriver (VObj [(''_id'', VStr ''507f1f77bcf86cd799439011'')]) =
     VObj [(''_id'', VObjectId ''507f1f77bcf86cd799439011'' [])]
   \<and> preprocessQuery plainDriver
        (preprocessQuery plainDriver (VObj [(''_id'', VStr ''507f1f77bcf86cd799439011'')])) =
     VObj [(''_id'', VObj [])]"
proof -
  have id: "isObjectIdField ''_id''"
    by (simp add: isObjectIdField_iff identifierLike_def)
  have valid: "ObjectId_isValid plainDriver ''507f1f77bcf86cd799439011''"
    by (simp add: plainDriver_def sample_id_valid)
  have inner: "preprocessQueryValue plainDriver
                 (newObjectId plainDriver ''507f1f77bcf86cd799439011'') (Some ''_id'') = VObj []"
    by (simp add: preprocessQueryValue_def newObjectId_def plainDriver_def)
  note passes = preprocessQuery_second_pass [OF id valid]
  from passes
  have first: "preprocessQuery plainDriver (VObj [(''_id'', VStr ''507f1f77bcf86cd799439011'')]) =
                 VObj [(''_id'', newObjectId plainDriver ''507f1f77bcf86cd799439011'')]"
    by blast
  from passes
  have second: "preprocessQuery plainDriver
                  (preprocessQuery plainDriver
                     (VObj [(''_id'', VStr ''507f1f77bcf86cd799439011'')])) =
                VObj [(''_id'', VObj [])]"
    unfolding inner by blast
  have "newObjectId plainDriver ''507f1f77bcf86cd799439011'' =
          VObjectId ''507f1f77bcf86cd799439011'' []"
    by (simp add: newObjectId_def plainDriver_def)
  with first second show ?thesis by (simp only:) 
qed

section \<open>Properties of the filters and the guard\<close>

lemma includes_mid: "includesStr t x \<Longrightarrow> includesStr (pre @ t @ post) x"
  unfolding includesStr_def
  by (meson sublist_appendI sublist_order.order_trans)

lemma reason_line: "includesStr ''To proceed anyway: Add {allowEmptyFilter: true}'' ''allowEmptyFilter''"
  by (simp add: includesStr_def sublist_code)

text \<open>
  C6. \<open>shouldBlockFilter\<close> blocks exactly when the filter is empty (absent, or an object
  without keys) and \<open>allowEmptyFilter\<close> is not true. When it blocks, it gives a reason,
  and the reason contains the text \<open>allowEmptyFilter\<close>; when it does not block, it gives
  no reason.
\<close>

theorem shouldBlockFilter_iff:
  "blocked (shouldBlockFilter f a operation) = ((f = None \<or> f = Some []) \<and> a \<noteq> Some True)
   \<and> (blocked (shouldBlockFilter f a operation) \<longrightarrow>
        (\<exists>m. reason (shouldBlockFilter f a operation) = Some m
           \<and> includesStr m ''allowEmptyFilter''))
   \<and> (\<not> blocked (shouldBlockFilter f a operation) \<longrightarrow>
        reason (shouldBlockFilter f a operation) = None)"
proof -
  have empty: "isEmpty (validateFilter f) = (f = None \<or> f = Some [])"
    by (simp add: validateFilter_def Let_def split: option.splits)
  have allow: "(case a of None \<Rightarrow> False | Some b \<Rightarrow> b) = (a = Some True)"
    by (simp split: option.splits)
  have b: "blocked (shouldBlockFilter f a operation) = ((f = None \<or> f = Some []) \<and> a \<noteq> Some True)"
    unfolding shouldBlockFilter_def Let_def empty allow by simp
  have r: "\<exists>m. reason (shouldBlockFilter f a operation) = Some m \<and> includesStr m ''allowEmptyFilter''"
    if "blocked (shouldBlockFilter f a operation)"
  proof -
    from that have c: "isEmpty (validateFilter f) \<and> \<not> (case a of None \<Rightarrow> False | Some b \<Rightarrow> b)"
      unfolding b empty allow by simp
    let ?pre = "warningSign @ '' Operation blocked for safety'' @ newline
                 @ newline
                 @ ''Filter: {} (empty - matches ALL documents)'' @ newline
                 @ newline
                 @ ''To preview impact: Add {dryRun: true}'' @ newline"
    obtain post where "reason (shouldBlockFilter f a operation) =
        Some (?pre @ ''To proceed anyway: Add {allowEmptyFilter: true}'' @ post)"
      using c unfolding shouldBlockFilter_def Let_def by simp
    then show ?thesis
      using includes_mid [OF reason_line, of ?pre] by blast
  qed
  have n: "reason (shouldBlockFilter f a operation) = None"
    if "\<not> blocked (shouldBlockFilter f a operation)"
    using that unfolding shouldBlockFilter_def Let_def by (simp split: if_splits)
  from b r n show ?thesis by blast
qed

theorem shouldBlockFilter_iff_witness:
  "blocked (shouldBlockFilter (Some []) (Some False) (Some ''delete''))
   \<and> (\<exists>m. reason (shouldBlockFilter (Some []) (Some False) (Some ''delete'')) = Some m
          \<and> includesStr m ''allowEmptyFilter'')
   \<and> \<not> blocked (shouldBlockFilter (Some []) (Some True) (Some ''delete''))
   \<and> reason (shouldBlockFilter (Some []) (Some True) (Some ''delete'')) = None
   \<and> \<not> blocked (shouldBlockFilter (Some [(''status'', VStr ''active'')]) (Some False)
            (Some ''delete''))
   \<and> reason (shouldBlockFilter (Some [(''status'', VStr ''active'')]) (Some False)
         (Some ''delete'')) = None"
  using shouldBlockFilter_iff [of "Some []" "Some False" "Some ''delete''"]
        shouldBlockFilter_iff [of "Some []" "Some True" "Some ''delete''"]
        shouldBlockFilter_iff [of "Some [(''status'', VStr ''active'')]" "Some False"
                                  "Some ''delete''"]
  by simp

lemma groupThousands_filter:
  "filter (\<lambda>c. c \<noteq> CHR '','') (groupThousands ds) = filter (\<lambda>c. c \<noteq> CHR '','') ds"
proof (induction ds rule: groupThousands.induct)
  case (1 ds)
  show ?case
  proof (cases "length ds \<le> 3")
    case True
    then show ?thesis by (subst groupThousands.simps) simp
  next
    case False
    have "filter (\<lambda>c. c \<noteq> CHR '','') (take (length ds - 3) ds) @ filter (\<lambda>c. c \<noteq> CHR '','') (drop (length ds - 3) ds)
       = filter (\<lambda>c. c \<noteq> CHR '','') ds"
      by (metis append_take_drop_id filter_append)
    with False 1 show ?thesis
      by (subst groupThousands.simps) simp
  qed
qed

lemma groupThousands_comma: "length ds > 3 \<Longrightarrow> CHR '','' \<in> set (groupThousands ds)"
  by (subst groupThousands.simps) simp

lemma showNat_no_comma: "filter (\<lambda>c. c \<noteq> CHR '','') (showNat n) = showNat n"
  using showNat_digits [of n] by (auto simp: filter_id_conv)

lemma length_showNat_step: "n \<ge> 10 \<Longrightarrow> length (showNat n) = Suc (length (showNat (n div 10)))"
  by (subst showNat.simps) simp

lemma showNat_not_Nil: "showNat n \<noteq> []"
  by (subst showNat.simps) simp

lemma length_showNat_thousand:
  assumes "n \<ge> 1000" shows "length (showNat n) > 3"
proof -
  have "n \<ge> 10" "n div 10 \<ge> 10" "n div 10 div 10 \<ge> 10"
    using assms by auto
  then show ?thesis
    using showNat_not_Nil [of "n div 10 div 10 div 10"]
    by (simp add: length_showNat_step)
qed

lemma toLocaleString_grouped:
  assumes "1000 \<le> n"
  shows "CHR '','' \<in> set (toLocaleString n)"
    and "filter (\<lambda>c. c \<noteq> CHR '','') (toLocaleString n) = showInt n"
proof -
  have "nat n \<ge> 1000" using assms by simp
  then have "length (showNat (nat n)) > 3" by (rule length_showNat_thousand)
  then show "CHR '','' \<in> set (toLocaleString n)"
    using assms by (simp add: toLocaleString_def groupThousands_comma)
  show "filter (\<lambda>c. c \<noteq> CHR '','') (toLocaleString n) = showInt n"
    using assms by (simp add: toLocaleString_def showInt_def groupThousands_filter showNat_no_comma)
qed

text \<open>
  C7. For a count that is not negative: no warning at 0 and from 1 to 10; from 11 to 99
  the plain message; from 100 to 999 the message behind one warning sign; from 1000 on
  the message behind two warning signs, with the count in groups of three digits (the
  digits of the count with commas put in).
\<close>

theorem getOperationWarning_tiers:
  assumes "0 \<le> n"
  shows "((n = 0 \<or> (1 \<le> n \<and> n \<le> 10)) \<longrightarrow> getOperationWarning n operation = None)
       \<and> ((11 \<le> n \<and> n \<le> 99) \<longrightarrow> getOperationWarning n operation =
            Some (''Will '' @ operation @ '' '' @ showInt n @ '' documents''))
       \<and> ((100 \<le> n \<and> n \<le> 999) \<longrightarrow> getOperationWarning n operation =
            Some (warningSign @ '' Large operation: Will '' @ operation @ '' '' @ showInt n @ '' documents''))
       \<and> (1000 \<le> n \<longrightarrow> getOperationWarning n operation =
            Some (warningSign @ warningSign @ '' LARGE OPERATION: Will '' @ operation @ '' ''
                  @ toLocaleString n @ '' documents'')
          \<and> CHR '','' \<in> set (toLocaleString n)
          \<and> filter (\<lambda>c. c \<noteq> CHR '','') (toLocaleString n) = showInt n)"
  using assms by (simp add: getOperationWarning_def toLocaleString_grouped)

theorem getOperationWarning_tiers_witness:
  "getOperationWarning 0 ''delete'' = None
   \<and> getOperationWarning 5 ''delete'' = None
   \<and> getOperationWarning 50 ''update'' = Some ''Will update 50 documents''
   \<and> getOperationWarning 150 ''delete'' =
       Some (warningSign @ '' Large operation: Will delete 150 documents'')
   \<and> getOperationWarning 5000 ''delete'' =
       Some (warningSign @ warningSign @ '' LARGE OPERATION: Will delete 5,000 documents'')"
proof -
  have s50: "showInt 50 = ''50''" and s150: "showInt 150 = ''150''"
    by (simp_all add: showInt_def showNat.simps digitChar_def)
  have l5000: "toLocaleString 5000 = ''5,000''"
    by (simp add: toLocaleString_def groupThousands.simps showNat.simps digitChar_def)
  from getOperationWarning_tiers [of 0 "''delete''"]
  have a: "getOperationWarning 0 ''delete'' = None" by simp
  from getOperationWarning_tiers [of 5 "''delete''"]
  have b: "getOperationWarning 5 ''delete'' = None" by simp
  from getOperationWarning_tiers [of 50 "''update''"]
  have c: "getOperationWarning 50 ''update'' = Some ''Will update 50 documents''"
    by (simp add: s50)
  from getOperationWarning_tiers [of 150 "''delete''"]
  have d: "getOperationWarning 150 ''delete'' =
             Some (warningSign @ '' Large operation: Will delete 150 documents'')"
    by (simp add: s150)
  from getOperationWarning_tiers [of 5000 "''delete''"]
  have e: "getOperationWarning 5000 ''delete'' =
             Some (warningSign @ warningSign @ '' LARGE OPERATION: Will delete 5,000 documents'')"
    by (simp add: l5000)
  from a b c d e show ?thesis by blast
qed

lemma getProp_defined: "getProp p k \<noteq> VUndefined \<Longrightarrow> k \<in> definedKeys p"
proof -
  assume "getProp p k \<noteq> VUndefined"
  then obtain v where "map_of p k = Some v" and "v \<noteq> VUndefined"
    unfolding getProp_def by (auto split: option.splits)
  then have "(k, v) \<in> set (filter (\<lambda>(k, v). v \<noteq> VUndefined) p)"
    by (auto dest: map_of_SomeD)
  then show ?thesis unfolding definedKeys_def by force
qed

lemma definedKeys_Cons:
  "definedKeys ((k, v) # r) = (if v \<noteq> VUndefined then insert k (definedKeys r) else definedKeys r)"
  by (simp add: definedKeys_def)

lemma definedKeys_Nil: "definedKeys [] = {}"
  by (simp add: definedKeys_def)

lemma ownKeys_append: "ownKeys (a @ b) = ownKeys a \<union> ownKeys b"
  by (simp add: ownKeys_def)

lemma definedKeys_append: "definedKeys (a @ b) = definedKeys a \<union> definedKeys b"
  by (simp add: definedKeys_def)

lemma definedKeys_picked: "definedKeys (map (\<lambda>k. (k, getProp p k)) ks) \<subseteq> definedKeys p"
  by (induction ks) (auto simp: definedKeys_Cons definedKeys_Nil dest: getProp_defined)

lemma collection_minimal:
  "filterCollectionStats p Minimal =
     map (\<lambda>k. (k, getProp p k))
       [''ns'', ''count'', ''size'', ''avgObjSize'', ''storageSize'', ''nindexes'',
        ''totalIndexSize'', ''indexSizes'']"
  by (simp add: filterCollectionStats_def)

lemma collection_standard:
  "filterCollectionStats p Standard =
     filterCollectionStats p Minimal @
     map (\<lambda>k. (k, getProp p k)) [''capped'', ''max'', ''freeStorageSize'']"
  by (simp add: filterCollectionStats_def)

lemma collection_full: "filterCollectionStats p Full = p"
  by (simp add: filterCollectionStats_def)

lemma database_minimal:
  "filterDatabaseStats p Minimal =
     map (\<lambda>k. (k, getProp p k))
       [''db'', ''collections'', ''views'', ''objects'', ''avgObjSize'', ''dataSize'',
        ''storageSize'', ''indexes'', ''indexSize'', ''totalSize'']"
  by (simp add: filterDatabaseStats_def)

lemma database_standard:
  "filterDatabaseStats p Standard =
     filterDatabaseStats p Minimal @
     map (\<lambda>k. (k, getProp p k)) [''scaleFactor'', ''freeStorageSize'']"
  by (simp add: filterDatabaseStats_def)

lemma database_full: "filterDatabaseStats p Full = p"
  by (simp add: filterDatabaseStats_def)

lemma profiler_minimal:
  "filterProfilerEntry p Minimal =
     map (\<lambda>k. (k, getProp p k)) [''op'', ''ns'', ''millis'', ''ts'']"
  by (simp add: filterProfilerEntry_def)

lemma profiler_standard:
  "filterProfilerEntry p Standard =
     filterProfilerEntry p Minimal @
     map (\<lambda>k. (k, getProp p k))
       [''planSummary'', ''docsExamined'', ''keysExamined'', ''nreturned'', ''user'']"
  by (simp add: filterProfilerEntry_def)

lemma profiler_full: "filterProfilerEntry p Full = p"
  by (simp add: filterProfilerEntry_def)

lemma monotone_shape:
  assumes "std = map (\<lambda>k. (k, getProp p k)) ks @ map (\<lambda>k. (k, getProp p k)) ks'"
  shows "retainedKeys p (map (\<lambda>k. (k, getProp p k)) ks) \<subseteq> retainedKeys p std
       \<and> retainedKeys p std \<subseteq> retainedKeys p p
       \<and> ownKeys (map (\<lambda>k. (k, getProp p k)) ks) \<subseteq> ownKeys std
       \<and> definedKeys (map (\<lambda>k. (k, getProp p k)) ks) \<subseteq> definedKeys std
       \<and> definedKeys std \<subseteq> definedKeys p"
  unfolding assms retainedKeys_def ownKeys_append definedKeys_append
  using definedKeys_picked [of p ks] definedKeys_picked [of p ks'] by blast

lemma retained_value:
  assumes "k \<in> set ks"
  shows "getProp (map (\<lambda>k. (k, getProp p k)) ks) k = getProp p k"
proof -
  have "map_of (map (\<lambda>k. (k, getProp p k)) ks) k = Some (getProp p k)"
    using assms by (induction ks) auto
  then show ?thesis by (simp add: getProp_def)
qed

text \<open>
  C8. For each of the three kinds (collection statistics, database statistics, profiler
  entry) and every payload, the filtering is monotonic in the verbosity: the keys
  retained at minimal are among the keys retained at standard, and these are among the
  keys retained at full. The same chain holds of the property names of the minimal and
  the standard result, and of the keys that carry a value in the results.
\<close>

theorem verbosity_monotone:
  "retainedKeys p (filterCollectionStats p Minimal) \<subseteq> retainedKeys p (filterCollectionStats p Standard)
   \<and> retainedKeys p (filterCollectionStats p Standard) \<subseteq> retainedKeys p (filterCollectionStats p Full)
   \<and> retainedKeys p (filterDatabaseStats p Minimal) \<subseteq> retainedKeys p (filterDatabaseStats p Standard)
   \<and> retainedKeys p (filterDatabaseStats p Standard) \<subseteq> retainedKeys p (filterDatabaseStats p Full)
   \<and> retainedKeys p (filterProfilerEntry p Minimal) \<subseteq> retainedKeys p (filterProfilerEntry p Standard)
   \<and> retainedKeys p (filterProfilerEntry p Standard) \<subseteq> retainedKeys p (filterProfilerEntry p Full)
   \<and> ownKeys (filterCollectionStats p Minimal) \<subseteq> ownKeys (filterCollectionStats p Standard)
   \<and> ownKeys (filterDatabaseStats p Minimal) \<subseteq> ownKeys (filterDatabaseStats p Standard)
   \<and> ownKeys (filterProfilerEntry p Minimal) \<subseteq> ownKeys (filterProfilerEntry p Standard)
   \<and> definedKeys (filterCollectionStats p Minimal) \<subseteq> definedKeys (filterCollectionStats p Standard)
   \<and> definedKeys (filterCollectionStats p Standard) \<subseteq> definedKeys (filterCollectionStats p Full)
   \<and> definedKeys (filterDatabaseStats p Minimal) \<subseteq> definedKeys (filterDatabaseStats p Standard)
   \<and> definedKeys (filterDatabaseStats p Standard) \<subseteq> definedKeys (filterDatabaseStats p Full)
   \<and> definedKeys (filterProfilerEntry p Minimal) \<subseteq> definedKeys (filterProfilerEntry p Standard)
   \<and> definedKeys (filterProfilerEntry p Standard) \<subseteq> definedKeys (filterProfilerEntry p Full)"
proof -
  note c = monotone_shape [OF collection_standard [of p, unfolded collection_minimal]]
  note d = monotone_shape [OF database_standard [of p, unfolded database_minimal]]
  note e = monotone_shape [OF profiler_standard [of p, unfolded profiler_minimal]]
  from c d e show ?thesis
    unfolding collection_full database_full profiler_full
    by (simp only: collection_minimal database_minimal profiler_minimal)
qed

subsection \<open>Properties of the limiter\<close>

lemma check_in_window:
  assumes "lim key = Some rec" and "now \<le> resetTime rec"
  shows "checkAdminRateLimit now key lim =
           (if count rec \<ge> 100 then (False, lim)
            else (True, lim(key \<mapsto> rec\<lparr>count := count rec + 1\<rparr>)))"
  using assms by (auto simp: checkAdminRateLimit_def ADMIN_RATE_LIMIT_def Let_def fun_upd_idem)

lemma check_fresh:
  assumes "lim key = None"
  shows "checkAdminRateLimit now key lim =
           (True, lim(key \<mapsto> \<lparr>count = 1, resetTime = now + 60000\<rparr>))"
  using assms
  by (simp add: checkAdminRateLimit_def ADMIN_RATE_LIMIT_def ADMIN_WINDOW_MS_def Let_def)

lemma check_expired:
  assumes "lim key = Some rec" and "now > resetTime rec"
  shows "checkAdminRateLimit now key lim =
           (True, lim(key \<mapsto> \<lparr>count = 1, resetTime = now + 60000\<rparr>))"
  using assms
  by (cases rec)
     (simp add: checkAdminRateLimit_def ADMIN_RATE_LIMIT_def ADMIN_WINDOW_MS_def Let_def)

lemma callsAt_in_window:
  assumes "lim key = Some rec" and "\<forall>t \<in> set nows. t \<le> resetTime rec"
  shows "fst (callsAt key nows lim) = map (\<lambda>i. count rec + int i < 100) [0..<length nows]
       \<and> snd (callsAt key nows lim) key =
           Some (rec\<lparr>count := (if count rec \<ge> 100 then count rec
                                else min (count rec + int (length nows)) 100)\<rparr>)"
  using assms
proof (induction nows arbitrary: rec lim)
  case Nil
  then show ?case by simp
next
  case (Cons now nows)
  have now: "now \<le> resetTime rec" and rest: "\<forall>t \<in> set nows. t \<le> resetTime rec"
    using Cons.prems(2) by simp_all
  have shift: "map (\<lambda>i. count rec + int i < 100) [0..<Suc (length nows)] =
               (count rec < 100) # map (\<lambda>i. count rec + 1 + int i < 100) [0..<length nows]"
    by (simp add: upt_conv_Cons map_Suc_upt [symmetric] add.assoc del: upt_Suc)
  show ?case
  proof (cases "count rec \<ge> 100")
    case True
    then have step: "checkAdminRateLimit now key lim = (False, lim)"
      using check_in_window [of lim key rec now] Cons.prems(1) now by simp
    have "fst (callsAt key nows lim) = map (\<lambda>i. count rec + int i < 100) [0..<length nows]
        \<and> snd (callsAt key nows lim) key = Some (rec\<lparr>count := count rec\<rparr>)"
      using Cons.IH [of lim rec, OF Cons.prems(1) rest] True by simp
    with True step shift show ?thesis
      by (simp add: split_beta del: upt_Suc)
  next
    case False
    let ?rec = "rec\<lparr>count := count rec + 1\<rparr>"
    let ?lim = "lim(key \<mapsto> ?rec)"
    from False have step: "checkAdminRateLimit now key lim = (True, ?lim)"
      using check_in_window [of lim key rec now] Cons.prems(1) now by simp
    have "fst (callsAt key nows ?lim) =
            map (\<lambda>i. count ?rec + int i < 100) [0..<length nows]
        \<and> snd (callsAt key nows ?lim) key =
            Some (?rec\<lparr>count := (if count ?rec \<ge> 100 then count ?rec
                                  else min (count ?rec + int (length nows)) 100)\<rparr>)"
    proof -
      have a: "?lim key = Some ?rec" by simp
      have b: "\<forall>t \<in> set nows. t \<le> resetTime ?rec" using rest by simp
      show ?thesis by (rule Cons.IH [of ?lim ?rec, OF a b])
    qed
    then have ih1: "fst (callsAt key nows ?lim) =
                      map (\<lambda>i. count rec + 1 + int i < 100) [0..<length nows]"
      and ih2: "snd (callsAt key nows ?lim) key =
                  Some (rec\<lparr>count := (if count rec + 1 \<ge> 100 then count rec + 1
                                       else min (count rec + 1 + int (length nows)) 100)\<rparr>)"
      by simp_all
    have val: "(if count rec + 1 \<ge> 100 then count rec + 1
                else min (count rec + 1 + int (length nows)) 100) =
               min (count rec + int (length (now # nows))) 100"
    proof -
      have "int (length (now # nows)) = 1 + int (length nows)" by simp
      then show ?thesis using False by (simp only: min_def) arith
    qed
    have "fst (callsAt key (now # nows) lim) =
            map (\<lambda>i. count rec + int i < 100) [0..<length (now # nows)]"
      using False step ih1 shift by (simp add: split_beta del: upt_Suc)
    moreover have "snd (callsAt key (now # nows) lim) key =
            Some (rec\<lparr>count := min (count rec + int (length (now # nows))) 100\<rparr>)"
      using step ih2 unfolding val by (simp add: split_beta)
    ultimately show ?thesis using False by simp
  qed
qed

lemma callsAt_fresh:
  assumes "lim key = None" and "\<forall>t \<in> set later. t \<le> t0 + 60000"
  shows "fst (callsAt key (t0 # later) lim) = map (\<lambda>i. i < 100) [0..<Suc (length later)]"
    and "snd (callsAt key (t0 # later) lim) key =
           Some \<lparr>count = min (1 + int (length later)) 100, resetTime = t0 + 60000\<rparr>"
proof -
  let ?rec = "\<lparr>count = 1, resetTime = t0 + 60000\<rparr>"
  let ?lim = "lim(key \<mapsto> ?rec)"
  have a: "?lim key = Some ?rec" by simp
  have b: "\<forall>t \<in> set later. t \<le> resetTime ?rec" using assms(2) by simp
  note rest = callsAt_in_window [of ?lim key ?rec later, OF a b]
  have idx: "map (\<lambda>i. i < 100) [0..<Suc (length later)] =
             True # map (\<lambda>i. (1::int) + int i < 100) [0..<length later]"
    by (simp add: upt_conv_Cons map_Suc_upt [symmetric] del: upt_Suc)
  show "fst (callsAt key (t0 # later) lim) = map (\<lambda>i. i < 100) [0..<Suc (length later)]"
    using rest check_fresh [of lim key t0, OF assms(1)] unfolding idx by (simp add: split_beta)
  show "snd (callsAt key (t0 # later) lim) key =
          Some \<lparr>count = min (1 + int (length later)) 100, resetTime = t0 + 60000\<rparr>"
    using rest check_fresh [of lim key t0, OF assms(1)] by (simp add: split_beta)
qed

text \<open>
  C4. For a key with no record yet, let the first call be at time \<open>t0\<close> and let any number
  of further calls follow inside the window that this call opens (clock readings up to
  \<open>t0 + 60000\<close>). Then call number \<open>i\<close> (counted from 0) is allowed exactly when
  \<open>i < 100\<close>: the first 100 calls return true and the 101st returns false. The next call
  whose clock reading is past the window boundary returns true and leaves the key with
  count 1.
\<close>

theorem checkAdminRateLimit_window:
  assumes "lim key = None"
    and "\<forall>t \<in> set later. t \<le> t0 + ADMIN_WINDOW_MS"
    and "t' > t0 + ADMIN_WINDOW_MS"
  shows "fst (callsAt key (t0 # later) lim) = map (\<lambda>i. i < 100) [0..<Suc (length later)]
       \<and> fst (checkAdminRateLimit t' key (snd (callsAt key (t0 # later) lim))) = True
       \<and> map_option count
           (snd (checkAdminRateLimit t' key (snd (callsAt key (t0 # later) lim))) key) = Some 1"
proof -
  have win: "\<forall>t \<in> set later. t \<le> t0 + 60000"
    using assms(2) by (simp add: ADMIN_WINDOW_MS_def)
  let ?lim = "snd (callsAt key (t0 # later) lim)"
  let ?rec = "\<lparr>count = min (1 + int (length later)) 100, resetTime = t0 + 60000\<rparr>"
  have stored: "?lim key = Some ?rec"
    by (rule callsAt_fresh(2) [of lim key later t0, OF assms(1) win])
  have "t' > resetTime ?rec"
    using assms(3) by (simp add: ADMIN_WINDOW_MS_def)
  from check_expired [of ?lim key ?rec t', OF stored this]
  have "checkAdminRateLimit t' key ?lim =
          (True, ?lim(key \<mapsto> \<lparr>count = 1, resetTime = t' + 60000\<rparr>))" .
  then show ?thesis
    using callsAt_fresh(1) [of lim key later t0, OF assms(1) win] by simp
qed

theorem checkAdminRateLimit_window_witness:
  "fst (callsAt ''dropCollection'' (1000 # replicate 100 2000) Map.empty) =
     replicate 100 True @ [False]
   \<and> fst (checkAdminRateLimit 61001 ''dropCollection''
            (snd (callsAt ''dropCollection'' (1000 # replicate 100 2000) Map.empty))) = True
   \<and> map_option count
        (snd (checkAdminRateLimit 61001 ''dropCollection''
               (snd (callsAt ''dropCollection'' (1000 # replicate 100 2000) Map.empty)))
           ''dropCollection'') = Some 1"
proof -
  have fresh: "(Map.empty :: limiter) ''dropCollection'' = None" by simp
  have win: "\<forall>t \<in> set (replicate 100 (2000::int)). t \<le> 1000 + ADMIN_WINDOW_MS"
    by (simp add: ADMIN_WINDOW_MS_def)
  have past: "(61001::int) > 1000 + ADMIN_WINDOW_MS"
    by (simp add: ADMIN_WINDOW_MS_def)
  have shape: "map (\<lambda>i. i < 100) [0..<Suc (length (replicate 100 (2000::int)))] =
               replicate 100 True @ [False]"
    by code_simp
  from checkAdminRateLimit_window
         [of Map.empty "''dropCollection''" "replicate 100 2000" 1000 61001, OF fresh win past]
  show ?thesis
    unfolding shape by blast
qed

text \<open>
  C9. A call that returns false leaves the limiter as it was: the record of the key
  keeps its count and its resetTime (and no other key is touched).
\<close>

theorem checkAdminRateLimit_deny_unchanged:
  assumes "fst (checkAdminRateLimit now key lim) = False"
  shows "snd (checkAdminRateLimit now key lim) = lim
       \<and> map_option count (snd (checkAdminRateLimit now key lim) key) = map_option count (lim key)
       \<and> map_option resetTime (snd (checkAdminRateLimit now key lim) key) =
           map_option resetTime (lim key)"
proof -
  have "snd (checkAdminRateLimit now key lim) = lim"
    using assms
    by (auto simp: checkAdminRateLimit_def ADMIN_RATE_LIMIT_def Let_def fun_upd_idem
             split: option.splits if_splits)
  then show ?thesis by simp
qed

theorem checkAdminRateLimit_deny_unchanged_witness:
  "fst (checkAdminRateLimit 4000 ''dropCollection''
          [''dropCollection'' \<mapsto> \<lparr>count = 100, resetTime = 5000\<rparr>]) = False
   \<and> snd (checkAdminRateLimit 4000 ''dropCollection''
          [''dropCollection'' \<mapsto> \<lparr>count = 100, resetTime = 5000\<rparr>]) =
       [''dropCollection'' \<mapsto> \<lparr>count = 100, resetTime = 5000\<rparr>]"
proof -
  have deny: "fst (checkAdminRateLimit 4000 ''dropCollection''
                [''dropCollection'' \<mapsto> \<lparr>count = 100, resetTime = 5000\<rparr>]) = False"
    by (simp add: checkAdminRateLimit_def ADMIN_RATE_LIMIT_def Let_def)
  from checkAdminRateLimit_deny_unchanged [OF deny] deny show ?thesis by blast
qed

end
